theory Spec2Isabelle
  imports Main
begin

section \<open>VisionTalk: the inference gateway and the conversation controller\<close>

text \<open>
  A shallow embedding of \<^verbatim>\<open>src/services/gemini.ts\<close> and of the state logic of
  \<^verbatim>\<open>src/App.tsx\<close>. JavaScript strings are modelled as \<^typ>\<open>string\<close>; the only
  characters the modelled code inspects are ASCII (the separator \<^verbatim>\<open>","\<close> and the
  letters of the two role names). \<^verbatim>\<open>undefined\<close> and \<^verbatim>\<open>null\<close> are \<^term>\<open>None\<close>.
\<close>

subsection \<open>JavaScript helpers\<close>

text \<open>Truthiness of a string: only the empty string is falsy.\<close>

definition truthy :: "string \<Rightarrow> bool" where
  "truthy s = (s \<noteq> [])"

text \<open>Truthiness of \<^verbatim>\<open>string | null | undefined\<close>.\<close>

definition truthy_opt :: "string option \<Rightarrow> bool" where
  "truthy_opt v = (case v of None \<Rightarrow> False | Some s \<Rightarrow> truthy s)"

text \<open>\<^verbatim>\<open>a || b\<close> where \<open>a\<close> may be undefined or null and \<open>b\<close> is a string.\<close>

definition or_str :: "string option \<Rightarrow> string \<Rightarrow> string" where
  "or_str a b = (case a of None \<Rightarrow> b | Some s \<Rightarrow> if truthy s then s else b)"

text \<open>\<^verbatim>\<open>a || undefined\<close>.\<close>

definition or_undefined :: "string option \<Rightarrow> string option" where
  "or_undefined a = (if truthy_opt a then a else None)"

text \<open>
  \<^verbatim>\<open>s.split(c)\<close> for a one-character separator: the pieces between the
  occurrences of the separator, never an empty array.
\<close>

fun split :: "char \<Rightarrow> string \<Rightarrow> string list" where
  "split c [] = [[]]"
| "split c (x # xs) =
     (if x = c then [] # split c xs
      else (case split c xs of [] \<Rightarrow> [[x]] | w # ws \<Rightarrow> (x # w) # ws))"

text \<open>\<^verbatim>\<open>xs[i]\<close> on an array: undefined out of range.\<close>

definition index :: "'a list \<Rightarrow> nat \<Rightarrow> 'a option" where
  "index xs i = (if i < length xs then Some (xs ! i) else None)"

text \<open>\<^verbatim>\<open>toUpperCase\<close> on the ASCII letters.\<close>

definition upper_char :: "char \<Rightarrow> char" where
  "upper_char c =
     (let n = (of_char c :: nat)
      in if 97 \<le> n \<and> n \<le> 122 then char_of (n - 32) else c)"

definition toUpperCase :: "string \<Rightarrow> string" where
  "toUpperCase s = map upper_char s"

text \<open>\<^verbatim>\<open>xs.join(sep)\<close> on an array of strings.\<close>

fun join :: "string \<Rightarrow> string list \<Rightarrow> string" where
  "join sep [] = []"
| "join sep [x] = x"
| "join sep (x # y # ys) = x @ sep @ join sep (y # ys)"

subsection \<open>Data model (gemini.ts)\<close>

datatype role = User | Model

definition role_str :: "role \<Rightarrow> string" where
  "role_str r = (case r of User \<Rightarrow> ''user'' | Model \<Rightarrow> ''model'')"

record Message =
  role :: role
  "text" :: string
  image :: "string option"
  audio :: "string option"

text \<open>
  The request and response shapes of \<^verbatim>\<open>ai.models.generateContent\<close>. Every field the
  source reads through \<^verbatim>\<open>?.\<close> is optional.
\<close>

record Blob =
  mimeType :: "string option"
  data :: "string option"

record Part =
  ptext :: "string option"
  inlineData :: "Blob option"

record Content =
  crole :: "role option"
  parts :: "Part list option"

datatype Modality = AUDIO | TEXT | IMAGE

record Config =
  systemInstruction :: "string option"
  responseModalities :: "Modality list option"
  voiceName :: "string option"

record Request =
  model :: string
  contents :: "Content list"
  config :: Config

record Candidate =
  content :: "Content option"

record Response =
  candidates :: "Candidate list option"

definition VISION_MODEL :: string where
  "VISION_MODEL = ''gemini-3.1-pro-preview''"

definition TTS_MODEL :: string where
  "TTS_MODEL = ''gemini-2.5-flash-preview-tts''"

subsection \<open>describeImage\<close>

definition text_part :: "string \<Rightarrow> Part" where
  "text_part t = \<lparr>ptext = Some t, inlineData = None\<rparr>"

definition describeImage_request ::
    "string \<Rightarrow> string \<Rightarrow> Message list \<Rightarrow> string option \<Rightarrow> Request" where
  "describeImage_request base64Image prompt history language =
     (let language' = (case language of None \<Rightarrow> ''English'' | Some l \<Rightarrow> l);
          imagePart =
            (if truthy base64Image
             then Some \<lparr>ptext = None,
                        inlineData = Some \<lparr>mimeType = Some ''image/jpeg'',
                                            data = index (split CHR '','' base64Image) 1\<rparr>\<rparr>
             else None);
          historyParts =
            map (\<lambda>m. \<lparr>crole = Some (role m), parts = Some [text_part (text m)]\<rparr>) history;
          systemInstruction' =
            ''You are a helpful AI assistant. Always respond in '' @ language' @
            ''. If an image is provided, analyze it thoroughly.'';
          parts0 = (case imagePart of None \<Rightarrow> [] | Some p \<Rightarrow> [p]);
          parts1 = parts0 @ [text_part prompt]
      in \<lparr>model = VISION_MODEL,
          contents = historyParts @ [\<lparr>crole = None, parts = Some parts1\<rparr>],
          config = \<lparr>systemInstruction = Some systemInstruction',
                    responseModalities = None, voiceName = None\<rparr>\<rparr>)"

subsection \<open>generateSpeech\<close>

definition generateSpeech_request :: "string \<Rightarrow> Request" where
  "generateSpeech_request t =
     \<lparr>model = TTS_MODEL,
      contents = [\<lparr>crole = None, parts = Some [text_part (''Say clearly: '' @ t)]\<rparr>],
      config = \<lparr>systemInstruction = None,
                responseModalities = Some [AUDIO], voiceName = Some ''Kore''\<rparr>\<rparr>"

text \<open>
  \<^verbatim>\<open>response.candidates?.[0]?.content?.parts?.[0]?.inlineData?.data\<close>
\<close>

definition generateSpeech_result :: "Response \<Rightarrow> string option" where
  "generateSpeech_result response =
     (case candidates response of None \<Rightarrow> None
      | Some cs \<Rightarrow>
     (case index cs 0 of None \<Rightarrow> None
      | Some c \<Rightarrow>
     (case content c of None \<Rightarrow> None
      | Some ct \<Rightarrow>
     (case parts ct of None \<Rightarrow> None
      | Some ps \<Rightarrow>
     (case index ps 0 of None \<Rightarrow> None
      | Some p \<Rightarrow>
     (case inlineData p of None \<Rightarrow> None
      | Some b \<Rightarrow> data b))))))"

subsection \<open>Conversation state (App.tsx)\<close>

datatype status = idle | analyzing | speaking

text \<open>A rejected promise: the thrown value is opaque to the component.\<close>

datatype error = RemoteError string

text \<open>
  The part of a running \<^verbatim>\<open>handleSend\<close> that waits: for the text response (with the
  value of \<^verbatim>\<open>isTtsEnabled\<close> its closure captured), for the speech response, or for
  the end of the playback of the audio element it created (with the element's source).
\<close>

datatype task = AwaitDescribe bool | AwaitSpeech | Playing string

text \<open>
  The component's state variables (\<open>image_st\<close> is the state variable \<^verbatim>\<open>image\<close>, renamed
  apart from the field of a message), and two ghost fields: the requests handed to
  \<^verbatim>\<open>ai.models.generateContent\<close> so far, in order, and the suspended handlers.
\<close>

record App =
  messages :: "Message list"
  input :: string
  image_st :: "string option"
  isRecording :: bool
  isLoading :: bool
  isTtsEnabled :: bool
  selectedLanguage :: string
  status :: status
  calls :: "Request list"
  tasks :: "task list"

text \<open>The values of \<^verbatim>\<open>useState\<close> at the first render.\<close>

definition init :: App where
  "init = \<lparr>messages = [], input = [], image_st = None, isRecording = False,
           isLoading = False, isTtsEnabled = True, selectedLanguage = ''English'',
           status = idle, calls = [], tasks = []\<rparr>"

subsubsection \<open>downloadConversation\<close>

text \<open>The content of the downloaded file.\<close>

definition downloadConversation :: "App \<Rightarrow> string" where
  "downloadConversation s =
     join [CHR 0x0A, CHR 0x0A]
       (map (\<lambda>m. toUpperCase (role_str (role m)) @ '': '' @ text m) (messages s))"

subsubsection \<open>handleSend\<close>

text \<open>
  The synchronous part of \<^verbatim>\<open>handleSend\<close>, up to the first \<^verbatim>\<open>await\<close>: the request
  of \<^verbatim>\<open>describeImage\<close> is issued with the \<^verbatim>\<open>messages\<close> of the render, before the
  user message.
\<close>

definition handleSend :: "string option \<Rightarrow> App \<Rightarrow> App" where
  "handleSend textOverride s =
     (let text' = or_str textOverride (input s) in
      if \<not> truthy text' \<and> \<not> truthy_opt (image_st s) then s
      else
        let userMsg = \<lparr>role = User, text = or_str (Some text') ''Analyze this image'',
                        image = or_undefined (image_st s), audio = None\<rparr>
        in s\<lparr>messages := messages s @ [userMsg],
             input := [],
             isLoading := True,
             status := analyzing,
             calls := calls s @
               [describeImage_request (or_str (image_st s) [])
                  (or_str (Some text') ''What do you see in this image?'')
                  (messages s) (Some (selectedLanguage s))],
             tasks := tasks s @ [AwaitDescribe (isTtsEnabled s)]\<rparr>)"

text \<open>The \<^verbatim>\<open>catch\<close> block followed by the \<^verbatim>\<open>finally\<close> block.\<close>

definition catch_finally :: "App \<Rightarrow> App" where
  "catch_finally s =
     s\<lparr>messages := messages s @
          [\<lparr>role = Model, text = ''Sorry, I encountered an error processing your request.'',
            image = None, audio = None\<rparr>],
       status := idle,
       isLoading := False\<rparr>"

text \<open>
  The handler resumes when \<^verbatim>\<open>describeImage\<close> settles: rejected, or resolved with
  \<^verbatim>\<open>response.text\<close>. It returns the new state and, when it suspends again, what it
  waits for.
\<close>

definition describe_settled ::
    "bool \<Rightarrow> error + string option \<Rightarrow> App \<Rightarrow> App \<times> task option" where
  "describe_settled tts outcome s =
     (case outcome of
        Inl e \<Rightarrow> (catch_finally s, None)
      | Inr t \<Rightarrow>
          let responseText = or_str t ''I couldn't analyze the image.'';
              modelMsg = \<lparr>role = Model, text = responseText, image = None, audio = None\<rparr>;
              s1 = s\<lparr>messages := messages s @ [modelMsg]\<rparr>
          in if tts
             then (s1\<lparr>status := speaking,
                      calls := calls s1 @ [generateSpeech_request responseText]\<rparr>,
                   Some AwaitSpeech)
             else (s1\<lparr>status := idle, isLoading := False\<rparr>, None))"

text \<open>The handler resumes when \<^verbatim>\<open>generateSpeech\<close> settles.\<close>

definition speech_settled :: "error + Response \<Rightarrow> App \<Rightarrow> App \<times> task option" where
  "speech_settled outcome s =
     (case outcome of
        Inl e \<Rightarrow> (catch_finally s, None)
      | Inr response \<Rightarrow>
          let audioData = generateSpeech_result response
          in if truthy_opt audioData
             then (s\<lparr>isLoading := False\<rparr>,
                   Some (Playing (''data:audio/wav;base64,'' @ or_str audioData [])))
             else (s\<lparr>status := idle, isLoading := False\<rparr>, None))"

text \<open>\<^verbatim>\<open>audio.onended\<close>\<close>

definition audio_ended :: "App \<Rightarrow> App" where
  "audio_ended s = s\<lparr>status := idle\<rparr>"

subsubsection \<open>clearChat\<close>

definition clearChat :: "App \<Rightarrow> App" where
  "clearChat s = s\<lparr>messages := [], image_st := None, status := idle\<rparr>"

subsubsection \<open>Events\<close>

text \<open>
  What the rendered component reacts to: the handlers wired in the JSX, and the
  completions of the suspended handlers, addressed by their position among the tasks.
  Each event runs to its end, or to its next \<^verbatim>\<open>await\<close>, on the committed state: the
  component is rendered between two events, so that a handler reads the state variables
  of the latest render and a functional update \<^verbatim>\<open>setMessages(prev => ...)\<close> applies to
  the current conversation. A control that is disabled or not rendered does not fire.
\<close>

datatype event =
    ChangeInput string
  | KeyDown string
  | ClickSend
  | ClickClear
  | ClickTts
  | ClickDownload
  | ClickRemoveImage
  | SelectLanguage string
  | ImageLoaded "string option"
  | RecorderStarted
  | RecorderStopped
  | DescribeSettled nat "error + string option"
  | SpeechSettled nat "error + Response"
  | AudioEnded nat

text \<open>A suspended handler ends, or goes on waiting for something else.\<close>

definition resume :: "nat \<Rightarrow> App \<times> task option \<Rightarrow> App" where
  "resume i r =
     (case r of
        (s, None) \<Rightarrow> s\<lparr>tasks := take i (tasks s) @ drop (Suc i) (tasks s)\<rparr>
      | (s, Some t) \<Rightarrow> s\<lparr>tasks := (tasks s)[i := t]\<rparr>)"

fun step :: "event \<Rightarrow> App \<Rightarrow> App" where
  "step (ChangeInput v) s = s\<lparr>input := v\<rparr>"
| "step (KeyDown k) s = (if k = ''Enter'' then handleSend None s else s)"
| "step ClickSend s =
     (if isLoading s \<or> (\<not> truthy (input s) \<and> \<not> truthy_opt (image_st s)) then s
      else handleSend None s)"
| "step ClickClear s = clearChat s"
| "step ClickTts s = s\<lparr>isTtsEnabled := \<not> isTtsEnabled s\<rparr>"
| "step ClickDownload s = s"
| "step ClickRemoveImage s =
     (if truthy_opt (image_st s) \<and> length (messages s) = 0 then s\<lparr>image_st := None\<rparr> else s)"
| "step (SelectLanguage v) s = s\<lparr>selectedLanguage := v\<rparr>"
| "step (ImageLoaded r) s = s\<lparr>image_st := r\<rparr>"
| "step RecorderStarted s = s\<lparr>isRecording := True\<rparr>"
| "step RecorderStopped s = s\<lparr>isRecording := False\<rparr>"
| "step (DescribeSettled i outcome) s =
     (case index (tasks s) i of
        Some (AwaitDescribe tts) \<Rightarrow> resume i (describe_settled tts outcome s)
      | _ \<Rightarrow> s)"
| "step (SpeechSettled i outcome) s =
     (case index (tasks s) i of
        Some AwaitSpeech \<Rightarrow> resume i (speech_settled outcome s)
      | _ \<Rightarrow> s)"
| "step (AudioEnded i) s =
     (case index (tasks s) i of
        Some (Playing src) \<Rightarrow> resume i (audio_ended s, None)
      | _ \<Rightarrow> s)"

text \<open>The events of a session, one after the other.\<close>

fun run :: "event list \<Rightarrow> App \<Rightarrow> App" where
  "run [] s = s"
| "run (e # es) s = run es (step e s)"

text \<open>The requests that have been issued and have not settled.\<close>

fun is_request :: "task \<Rightarrow> bool" where
  "is_request (AwaitDescribe tts) = True"
| "is_request AwaitSpeech = True"
| "is_request (Playing src) = False"

definition in_flight :: "App \<Rightarrow> nat" where
  "in_flight s = length (filter is_request (tasks s))"

subsubsection \<open>Observations on a session\<close>

text \<open>The requests that went to the speech model.\<close>

definition speech_calls :: "App \<Rightarrow> Request list" where
  "speech_calls s = filter (\<lambda>r. model r = TTS_MODEL) (calls s)"

text \<open>The two events wired to \<^verbatim>\<open>handleSend\<close>: the send button and the Enter key.\<close>

definition is_submit :: "event \<Rightarrow> bool" where
  "is_submit e = (e = ClickSend \<or> e = KeyDown ''Enter'')"

subsection \<open>The wording of the specification, for comparison\<close>

text \<open>
  Every inline payload of a response, candidate by candidate and part by part, and the
  first of them: what "the first inline audio payload found in the response" denotes.
\<close>

definition spec_inline_payloads :: "Response \<Rightarrow> string list" where
  "spec_inline_payloads response =
     concat (map (\<lambda>c. case content c of None \<Rightarrow> []
                       | Some ct \<Rightarrow> (case parts ct of None \<Rightarrow> []
                       | Some ps \<Rightarrow>
                           concat (map (\<lambda>p. case inlineData p of None \<Rightarrow> []
                                             | Some b \<Rightarrow> (case data b of None \<Rightarrow> [] | Some d \<Rightarrow> [d]))
                                   ps)))
                 (case candidates response of None \<Rightarrow> [] | Some cs \<Rightarrow> cs))"

definition spec_first_inline_payload :: "Response \<Rightarrow> string option" where
  "spec_first_inline_payload response =
     (case spec_inline_payloads response of [] \<Rightarrow> None | d # ds \<Rightarrow> Some d)"

text \<open>
  A data URI is \<^verbatim>\<open>data:[<mediatype>][;base64],<data>\<close>: stripping its prefix leaves
  everything after the first comma.
\<close>

definition spec_strip_data_uri_prefix :: "string \<Rightarrow> string" where
  "spec_strip_data_uri_prefix s = drop 1 (dropWhile (\<lambda>x. x \<noteq> CHR '','') s)"

section \<open>Properties\<close>

subsection \<open>Helper lemmas\<close>

lemma index_0: "index xs 0 = (case xs of [] \<Rightarrow> None | x # ys \<Rightarrow> Some x)"
  by (cases xs) (simp_all add: index_def)

lemma generateSpeech_result_Some:
  "generateSpeech_result r = Some d \<longleftrightarrow>
     (\<exists>c cs ct p ps b. candidates r = Some (c # cs) \<and> content c = Some ct \<and>
        parts ct = Some (p # ps) \<and> inlineData p = Some b \<and> data b = Some d)"
  by (auto simp: generateSpeech_result_def index_0 split: option.splits list.splits)

subsection \<open>generateSpeech reads one position of the response\<close>

text \<open>
  C2 (as amended). \<^verbatim>\<open>generateSpeech\<close> returns the inline data of the first part of the
  first candidate of the response, and nothing when any link of that chain is absent.
  What it returns is then the first inline payload of the whole response, and it returns
  nothing when the response has no inline payload at all; the converse of the latter does
  not hold.
\<close>

theorem generateSpeech_first_part:
  "(generateSpeech_result r = Some d \<longleftrightarrow>
     (\<exists>c cs ct p ps b. candidates r = Some (c # cs) \<and> content c = Some ct \<and>
        parts ct = Some (p # ps) \<and> inlineData p = Some b \<and> data b = Some d))
   \<and> (generateSpeech_result r = Some d \<longrightarrow> spec_first_inline_payload r = Some d)
   \<and> (spec_first_inline_payload r = None \<longrightarrow> generateSpeech_result r = None)"
proof -
  have fwd: "spec_first_inline_payload r = Some d'" if "generateSpeech_result r = Some d'" for d'
  proof -
    from that obtain c cs ct p ps b where
      "candidates r = Some (c # cs)" "content c = Some ct" "parts ct = Some (p # ps)"
      "inlineData p = Some b" "data b = Some d'"
      unfolding generateSpeech_result_Some by blast
    then show ?thesis
      by (simp add: spec_first_inline_payload_def spec_inline_payloads_def)
  qed
  have "generateSpeech_result r = None" if "spec_first_inline_payload r = None"
  proof (cases "generateSpeech_result r")
    case None then show ?thesis .
  next
    case (Some d') with fwd that show ?thesis by simp
  qed
  with fwd generateSpeech_result_Some show ?thesis by blast
qed

theorem generateSpeech_first_part_witness:
  "generateSpeech_result
     \<lparr>candidates = Some [\<lparr>content = Some \<lparr>crole = Some Model,
        parts = Some [\<lparr>ptext = None,
                       inlineData = Some \<lparr>mimeType = Some ''audio/L16'', data = Some ''UklGRg==''\<rparr>\<rparr>]\<rparr>\<rparr>]\<rparr>
     = Some ''UklGRg==''
   \<and> spec_first_inline_payload
     \<lparr>candidates = Some [\<lparr>content = Some \<lparr>crole = Some Model,
        parts = Some [\<lparr>ptext = None,
                       inlineData = Some \<lparr>mimeType = Some ''audio/L16'', data = Some ''UklGRg==''\<rparr>\<rparr>]\<rparr>\<rparr>]\<rparr>
     = Some ''UklGRg==''
   \<and> spec_first_inline_payload \<lparr>candidates = Some []\<rparr> = None
   \<and> generateSpeech_result \<lparr>candidates = Some []\<rparr> = None"
proof -
  let ?r = "\<lparr>candidates = Some [\<lparr>content = Some \<lparr>crole = Some Model,
        parts = Some [\<lparr>ptext = None,
                       inlineData = Some \<lparr>mimeType = Some ''audio/L16'', data = Some ''UklGRg==''\<rparr>\<rparr>]\<rparr>\<rparr>]\<rparr>"
  have a: "generateSpeech_result ?r = Some ''UklGRg==''"
    by (simp add: generateSpeech_result_def index_def)
  have b: "spec_first_inline_payload \<lparr>candidates = Some []\<rparr> = None"
    by (simp add: spec_first_inline_payload_def spec_inline_payloads_def)
  from a b generateSpeech_first_part [of ?r "''UklGRg==''"]
    generateSpeech_first_part [of "\<lparr>candidates = Some []\<rparr>" "[]"]
  show ?thesis by blast
qed

text \<open>
  C2 as stated fails: a response whose first part is text and whose second part carries
  the audio holds an inline payload, and \<^verbatim>\<open>generateSpeech\<close> returns nothing.
\<close>

theorem generateSpeech_anywhere_counterexample:
  "generateSpeech_result
     \<lparr>candidates = Some [\<lparr>content = Some \<lparr>crole = Some Model,
        parts = Some [\<lparr>ptext = Some ''ok'', inlineData = None\<rparr>,
                      \<lparr>ptext = None,
                       inlineData = Some \<lparr>mimeType = Some ''audio/L16'', data = Some ''UklGRg==''\<rparr>\<rparr>]\<rparr>\<rparr>]\<rparr>
     = None
   \<and> spec_first_inline_payload
     \<lparr>candidates = Some [\<lparr>content = Some \<lparr>crole = Some Model,
        parts = Some [\<lparr>ptext = Some ''ok'', inlineData = None\<rparr>,
                      \<lparr>ptext = None,
                       inlineData = Some \<lparr>mimeType = Some ''audio/L16'', data = Some ''UklGRg==''\<rparr>\<rparr>]\<rparr>\<rparr>]\<rparr>
     = Some ''UklGRg==''"
  by (simp add: generateSpeech_result_def index_def spec_first_inline_payload_def
      spec_inline_payloads_def)

subsection \<open>clearChat\<close>

text \<open>
  C7. From every state, \<^verbatim>\<open>clearChat\<close> (the handler of the clear button) leaves an empty
  conversation, no pending image and the status idle.
\<close>

theorem clearChat_resets:
  "messages (clearChat s) = [] \<and> image_st (clearChat s) = None \<and> status (clearChat s) = idle
   \<and> step ClickClear s = clearChat s"
  by (simp add: clearChat_def)

subsection \<open>The request of describeImage\<close>

lemma split_not_Nil: "split c s \<noteq> []"
  by (induction s) (auto split: list.splits)

lemma split_no_sep: "c \<notin> set s \<Longrightarrow> split c s = [s]"
  by (induction s) auto

lemma hd_split: "hd (split c s) = takeWhile (\<lambda>x. x \<noteq> c) s"
  by (induction s) (auto split: list.splits simp: split_not_Nil)

lemma split_first: "c \<notin> set pre \<Longrightarrow> split c (pre @ c # rest) = pre # split c rest"
  by (induction pre) (auto split: list.splits)

lemma index_split_no_sep: "c \<notin> set s \<Longrightarrow> index (split c s) 1 = None"
  by (simp add: split_no_sep index_def)

lemma index_split_second:
  "c \<notin> set pre \<Longrightarrow> index (split c (pre @ c # rest)) 1 = Some (takeWhile (\<lambda>x. x \<noteq> c) rest)"
proof -
  assume "c \<notin> set pre"
  then have "split c (pre @ c # rest) = pre # split c rest" by (rule split_first)
  moreover obtain w ws where "split c rest = w # ws"
    using split_not_Nil [of c rest] by (cases "split c rest") auto
  moreover from this have "w = takeWhile (\<lambda>x. x \<noteq> c) rest"
    using hd_split [of c rest] by simp
  ultimately show ?thesis by (simp add: index_def)
qed

text \<open>
  C9 (as amended). For every image string, prompt, history and language, the contents of
  the request are the history turns, each mapped to its role and a single text part, and
  then the current turn without a role. The current turn is the prompt text alone when
  the image string is empty. Otherwise it is an inline part of MIME type image/jpeg
  followed by the prompt text; the data of the inline part is the piece of the image
  string between its first and its second comma: absent when the string has no comma,
  and the whole payload, which is the string stripped of its data-URI prefix, when the
  payload has no comma (as the base64 payload of a data URI has none).
\<close>

theorem describeImage_request_contents:
  "length (contents (describeImage_request img prompt history language)) = Suc (length history)
   \<and> (\<forall>i < length history.
         contents (describeImage_request img prompt history language) ! i =
           \<lparr>crole = Some (role (history ! i)), parts = Some [text_part (text (history ! i))]\<rparr>)
   \<and> crole (last (contents (describeImage_request img prompt history language))) = None
   \<and> (img = [] \<longrightarrow>
         parts (last (contents (describeImage_request img prompt history language))) =
           Some [text_part prompt])
   \<and> (img \<noteq> [] \<longrightarrow> (\<exists>d.
         parts (last (contents (describeImage_request img prompt history language))) =
           Some [\<lparr>ptext = None, inlineData = Some \<lparr>mimeType = Some ''image/jpeg'', data = d\<rparr>\<rparr>,
                 text_part prompt]
         \<and> (CHR '','' \<notin> set img \<longrightarrow> d = None)
         \<and> (\<forall>pre rest. img = pre @ CHR '','' # rest \<and> CHR '','' \<notin> set pre \<longrightarrow>
               d = Some (takeWhile (\<lambda>x. x \<noteq> CHR '','') rest))
         \<and> (\<forall>pre payload. img = pre @ CHR '','' # payload \<and> CHR '','' \<notin> set pre \<and>
               CHR '','' \<notin> set payload \<longrightarrow>
               d = Some payload \<and> payload = spec_strip_data_uri_prefix img)))"
proof -
  let ?req = "describeImage_request img prompt history language"
  have 1: "length (contents ?req) = Suc (length history)"
    by (simp add: describeImage_request_def Let_def)
  have 2: "\<forall>i < length history. contents ?req ! i =
           \<lparr>crole = Some (role (history ! i)), parts = Some [text_part (text (history ! i))]\<rparr>"
    by (simp add: describeImage_request_def Let_def nth_append)
  have 3: "crole (last (contents ?req)) = None"
    by (simp add: describeImage_request_def Let_def)
  have 4: "parts (last (contents ?req)) = Some [text_part prompt]" if "img = []"
    using that by (simp add: describeImage_request_def Let_def truthy_def)
  have 5: "parts (last (contents ?req)) =
           Some [\<lparr>ptext = None, inlineData = Some \<lparr>mimeType = Some ''image/jpeg'',
                   data = index (split CHR '','' img) 1\<rparr>\<rparr>, text_part prompt]" if "img \<noteq> []"
    using that by (simp add: describeImage_request_def Let_def truthy_def)
  have 6: "index (split CHR '','' img) 1 = None" if "CHR '','' \<notin> set img"
    using that by (rule index_split_no_sep)
  have 7: "index (split CHR '','' img) 1 = Some (takeWhile (\<lambda>x. x \<noteq> CHR '','') rest)"
    if "img = pre @ CHR '','' # rest" "CHR '','' \<notin> set pre" for pre rest
    using that index_split_second [of "CHR '',''" pre rest] by simp
  have 8: "index (split CHR '','' img) 1 = Some payload \<and> payload = spec_strip_data_uri_prefix img"
    if "img = pre @ CHR '','' # payload" "CHR '','' \<notin> set pre" "CHR '','' \<notin> set payload"
    for pre payload
  proof -
    from that(3) have "takeWhile (\<lambda>x. x \<noteq> CHR '','') payload = payload"
      by (auto simp: takeWhile_eq_all_conv)
    moreover from that(1,2) have "dropWhile (\<lambda>x. x \<noteq> CHR '','') img = CHR '','' # payload"
      by (auto simp: dropWhile_append3)
    ultimately show ?thesis
      using 7 [OF that(1,2)] by (simp add: spec_strip_data_uri_prefix_def)
  qed
  from 1 2 3 4 5 6 7 8 show ?thesis by blast
qed

theorem describeImage_request_contents_witness:
  "contents (describeImage_request ''data:image/png;base64,iVBORw0KGgo='' ''what is this?''
      [\<lparr>role = User, text = ''hi'', image = None, audio = None\<rparr>,
       \<lparr>role = Model, text = ''hello'', image = None, audio = None\<rparr>] (Some ''French'')) =
     [\<lparr>crole = Some User, parts = Some [text_part ''hi'']\<rparr>,
      \<lparr>crole = Some Model, parts = Some [text_part ''hello'']\<rparr>,
      \<lparr>crole = None, parts = Some
         [\<lparr>ptext = None,
           inlineData = Some \<lparr>mimeType = Some ''image/jpeg'', data = Some ''iVBORw0KGgo=''\<rparr>\<rparr>,
          text_part ''what is this?'']\<rparr>]
   \<and> contents (describeImage_request [] ''what is this?'' [] None) =
     [\<lparr>crole = None, parts = Some [text_part ''what is this?'']\<rparr>]"
proof -
  let ?h = "[\<lparr>role = User, text = ''hi'', image = None, audio = None\<rparr>,
       \<lparr>role = Model, text = ''hello'', image = None, audio = None\<rparr>]"
  let ?img = "''data:image/png;base64,iVBORw0KGgo=''"
  let ?req = "describeImage_request ?img ''what is this?'' ?h (Some ''French'')"
  note t = describeImage_request_contents [of ?img "''what is this?''" ?h "Some ''French''"]
  from t have len: "length (contents ?req) = 3" by simp
  from t have "\<forall>i < length ?h. contents ?req ! i =
      \<lparr>crole = Some (role (?h ! i)), parts = Some [text_part (text (?h ! i))]\<rparr>" by blast
  then have n0: "contents ?req ! 0 = \<lparr>crole = Some User, parts = Some [text_part ''hi'']\<rparr>"
    and n1: "contents ?req ! 1 = \<lparr>crole = Some Model, parts = Some [text_part ''hello'']\<rparr>"
    by simp_all
  from t have cr: "crole (last (contents ?req)) = None" by blast
  have ne: "?img \<noteq> []" by simp
  from t ne obtain d where
    p: "parts (last (contents ?req)) =
          Some [\<lparr>ptext = None, inlineData = Some \<lparr>mimeType = Some ''image/jpeg'', data = d\<rparr>\<rparr>,
                text_part ''what is this?'']"
    and d: "\<forall>pre payload. ?img = pre @ CHR '','' # payload \<and> CHR '','' \<notin> set pre \<and>
               CHR '','' \<notin> set payload \<longrightarrow> d = Some payload \<and> payload = spec_strip_data_uri_prefix ?img"
    by blast
  have "?img = ''data:image/png;base64'' @ CHR '','' # ''iVBORw0KGgo='' \<and>
      CHR '','' \<notin> set ''data:image/png;base64'' \<and> CHR '','' \<notin> set ''iVBORw0KGgo=''" by simp
  with d have dv: "d = Some ''iVBORw0KGgo=''" by blast
  from len obtain a b c where abc: "contents ?req = [a, b, c]"
    by (auto simp: length_Suc_conv numeral_3_eq_3)
  from abc n0 n1 have "a = \<lparr>crole = Some User, parts = Some [text_part ''hi'']\<rparr>"
    "b = \<lparr>crole = Some Model, parts = Some [text_part ''hello'']\<rparr>" by simp_all
  moreover from abc cr p dv have "c = \<lparr>crole = None, parts = Some
         [\<lparr>ptext = None,
           inlineData = Some \<lparr>mimeType = Some ''image/jpeg'', data = Some ''iVBORw0KGgo=''\<rparr>\<rparr>,
          text_part ''what is this?'']\<rparr>" by simp
  ultimately have A: "contents ?req = [\<lparr>crole = Some User, parts = Some [text_part ''hi'']\<rparr>,
      \<lparr>crole = Some Model, parts = Some [text_part ''hello'']\<rparr>,
      \<lparr>crole = None, parts = Some
         [\<lparr>ptext = None,
           inlineData = Some \<lparr>mimeType = Some ''image/jpeg'', data = Some ''iVBORw0KGgo=''\<rparr>\<rparr>,
          text_part ''what is this?'']\<rparr>]" using abc by simp
  let ?req2 = "describeImage_request [] ''what is this?'' [] None"
  note t2 = describeImage_request_contents [of "[]" "''what is this?''" "[]" None]
  from t2 have "length (contents ?req2) = 1" by simp
  then obtain e where e: "contents ?req2 = [e]"
    by (auto simp: length_Suc_conv)
  from t2 have "crole (last (contents ?req2)) = None"
    "parts (last (contents ?req2)) = Some [text_part ''what is this?'']" by blast+
  with e have "e = \<lparr>crole = None, parts = Some [text_part ''what is this?'']\<rparr>" by simp
  with e A show ?thesis by simp
qed

text \<open>
  C9 as stated fails for a data URI whose payload holds a comma: the payload is cut at
  that comma.
\<close>

theorem describeImage_prefix_counterexample:
  "contents (describeImage_request ''data:image/svg+xml,a,b'' ''p'' [] None) =
     [\<lparr>crole = None, parts = Some
        [\<lparr>ptext = None, inlineData = Some \<lparr>mimeType = Some ''image/jpeg'', data = Some ''a''\<rparr>\<rparr>,
         text_part ''p'']\<rparr>]
   \<and> spec_strip_data_uri_prefix ''data:image/svg+xml,a,b'' = ''a,b''"
  by (simp add: describeImage_request_def Let_def truthy_def index_def
      spec_strip_data_uri_prefix_def)

subsection \<open>handleSend: what is not submitted, and what an image alone sends\<close>

text \<open>
  C5. With empty text and no pending image, \<^verbatim>\<open>handleSend\<close> returns at once: the state
  is unchanged as a whole (conversation, pending image, status, and the list of requests
  issued), through the send button and through the Enter key alike.
\<close>

theorem handleSend_empty_noop:
  assumes "\<not> truthy (or_str textOverride (input s))" and "image_st s = None"
  shows "handleSend textOverride s = s \<and> step ClickSend s = s \<and> step (KeyDown ''Enter'') s = s"
proof -
  from assms(1) have "\<not> truthy (input s)"
    by (auto simp: or_str_def split: option.splits if_splits)
  with assms show ?thesis
    by (simp add: handleSend_def truthy_opt_def or_str_def)
qed

theorem handleSend_empty_noop_witness:
  "\<not> truthy (or_str None (input init)) \<and> image_st init = None
   \<and> handleSend None init = init \<and> step ClickSend init = init
   \<and> step (KeyDown ''Enter'') init = init
   \<and> calls (run [KeyDown ''Enter'', ClickSend] init) = []"
proof -
  have a: "\<not> truthy (or_str None (input init))" by (simp add: or_str_def init_def truthy_def)
  have b: "image_st init = None" by (simp add: init_def)
  from handleSend_empty_noop [OF a b] a b show ?thesis by (simp add: init_def)
qed

text \<open>
  C10. A turn submitted with empty text and a pending image appends a user message with
  the text "Analyze this image", and the request it issues carries the prompt
  "What do you see in this image?" as the text part after the image: two different
  strings.
\<close>

theorem handleSend_image_only_prompts:
  assumes "\<not> truthy (or_str textOverride (input s))" and "image_st s = Some img" and "truthy img"
  shows "messages (handleSend textOverride s) =
           messages s @ [\<lparr>role = User, text = ''Analyze this image'', image = Some img, audio = None\<rparr>]
     \<and> calls (handleSend textOverride s) =
           calls s @ [describeImage_request img ''What do you see in this image?'' (messages s)
                        (Some (selectedLanguage s))]
     \<and> (\<exists>p. parts (last (contents (last (calls (handleSend textOverride s))))) =
              Some [p, text_part ''What do you see in this image?''])
     \<and> ''Analyze this image'' \<noteq> ''What do you see in this image?''"
  using assms
  by (simp add: handleSend_def truthy_opt_def or_str_def or_undefined_def truthy_def
      describeImage_request_def Let_def)

theorem handleSend_image_only_prompts_witness:
  "messages (step ClickSend (step (ImageLoaded (Some ''data:image/png;base64,iVBORw0KGgo='')) init)) =
     [\<lparr>role = User, text = ''Analyze this image'',
       image = Some ''data:image/png;base64,iVBORw0KGgo='', audio = None\<rparr>]
   \<and> parts (last (contents (last (calls
        (step ClickSend (step (ImageLoaded (Some ''data:image/png;base64,iVBORw0KGgo='')) init)))))) =
     Some [\<lparr>ptext = None,
            inlineData = Some \<lparr>mimeType = Some ''image/jpeg'', data = Some ''iVBORw0KGgo=''\<rparr>\<rparr>,
           text_part ''What do you see in this image?'']"
proof -
  let ?s = "step (ImageLoaded (Some ''data:image/png;base64,iVBORw0KGgo='')) init"
  have a: "\<not> truthy (or_str None (input ?s))" by (simp add: init_def or_str_def truthy_def)
  have b: "image_st ?s = Some ''data:image/png;base64,iVBORw0KGgo=''" by (simp add: init_def)
  have c: "truthy ''data:image/png;base64,iVBORw0KGgo=''" by (simp add: truthy_def)
  have d: "step ClickSend ?s = handleSend None ?s"
    by (simp add: init_def truthy_opt_def truthy_def)
  from handleSend_image_only_prompts [OF a b c] show ?thesis
    unfolding d by (simp add: init_def describeImage_request_def Let_def truthy_def index_def)
qed

subsection \<open>downloadConversation\<close>

lemma upper_roles:
  "toUpperCase (role_str User) = ''USER''" "toUpperCase (role_str Model) = ''MODEL''"
  by code_simp+

lemma join_snoc: "join sep ((x # xs) @ [y]) = join sep (x # xs) @ sep @ y"
  by (induction xs arbitrary: x) simp_all

text \<open>
  C6. The exported text is the messages in conversation order, each as its role in upper
  case, a colon, a space and its text, joined by two newlines: empty for the empty
  conversation, and each further message adds the separator and its line at the end. On
  the conversation of the user's "hi" and the model's "hello" it is "USER: hi", two
  newlines, "MODEL: hello". The images and the audio of the messages do not enter it.
\<close>

theorem downloadConversation_transcript:
  "downloadConversation s =
     join [CHR 0x0A, CHR 0x0A]
       (map (\<lambda>m. (case role m of User \<Rightarrow> ''USER'' | Model \<Rightarrow> ''MODEL'') @ '': '' @ text m)
          (messages s))
   \<and> downloadConversation (s\<lparr>messages := []\<rparr>) = []
   \<and> downloadConversation (s\<lparr>messages := (m0 # ms) @ [m]\<rparr>) =
       downloadConversation (s\<lparr>messages := m0 # ms\<rparr>) @ [CHR 0x0A, CHR 0x0A] @
       (case role m of User \<Rightarrow> ''USER'' | Model \<Rightarrow> ''MODEL'') @ '': '' @ text m
   \<and> downloadConversation
        (s\<lparr>messages := [\<lparr>role = User, text = ''hi'', image = i1, audio = a1\<rparr>,
                        \<lparr>role = Model, text = ''hello'', image = i2, audio = a2\<rparr>]\<rparr>) =
       ''USER: hi'' @ [CHR 0x0A, CHR 0x0A] @ ''MODEL: hello''
   \<and> downloadConversation (s\<lparr>messages := map (\<lambda>m. m\<lparr>image := i m, audio := a m\<rparr>) (messages s)\<rparr>) =
       downloadConversation s"
proof -
  have line: "toUpperCase (role_str (role m)) = (case role m of User \<Rightarrow> ''USER'' | Model \<Rightarrow> ''MODEL'')"
    for m :: Message
    by (cases "role m") (simp_all add: upper_roles)
  have 1: "downloadConversation s =
     join [CHR 0x0A, CHR 0x0A]
       (map (\<lambda>m. (case role m of User \<Rightarrow> ''USER'' | Model \<Rightarrow> ''MODEL'') @ '': '' @ text m)
          (messages s))" for s
    by (simp add: downloadConversation_def line)
  have 2: "downloadConversation (s\<lparr>messages := []\<rparr>) = []"
    by (simp add: downloadConversation_def)
  have 3: "downloadConversation (s\<lparr>messages := (m0 # ms) @ [m]\<rparr>) =
       downloadConversation (s\<lparr>messages := m0 # ms\<rparr>) @ [CHR 0x0A, CHR 0x0A] @
       (case role m of User \<Rightarrow> ''USER'' | Model \<Rightarrow> ''MODEL'') @ '': '' @ text m"
    unfolding 1 using join_snoc [of "[CHR 0x0A, CHR 0x0A]" _ "map _ ms"] by simp
  have 4: "downloadConversation
        (s\<lparr>messages := [\<lparr>role = User, text = ''hi'', image = i1, audio = a1\<rparr>,
                        \<lparr>role = Model, text = ''hello'', image = i2, audio = a2\<rparr>]\<rparr>) =
       ''USER: hi'' @ [CHR 0x0A, CHR 0x0A] @ ''MODEL: hello''"
    unfolding 1 by simp
  have 5: "downloadConversation (s\<lparr>messages := map (\<lambda>m. m\<lparr>image := i m, audio := a m\<rparr>) (messages s)\<rparr>) =
       downloadConversation s"
    unfolding 1 by (simp add: comp_def)
  from 1 2 3 4 5 show ?thesis by blast
qed

subsection \<open>A turn: submission, text response, speech response\<close>

lemma index_snoc: "index (xs @ [x]) (length xs) = Some x"
  by (simp add: index_def)

lemma index_length: "index xs (length xs) = None"
  by (simp add: index_def)

lemma handleSend_accepted:
  assumes "truthy (or_str textOverride (input s)) \<or> truthy_opt (image_st s)"
  shows "handleSend textOverride s =
     s\<lparr>messages := messages s @
          [\<lparr>role = User, text = or_str (Some (or_str textOverride (input s))) ''Analyze this image'',
            image = or_undefined (image_st s), audio = None\<rparr>],
       input := [],
       isLoading := True,
       status := analyzing,
       calls := calls s @
         [describeImage_request (or_str (image_st s) [])
            (or_str (Some (or_str textOverride (input s))) ''What do you see in this image?'')
            (messages s) (Some (selectedLanguage s))],
       tasks := tasks s @ [AwaitDescribe (isTtsEnabled s)]\<rparr>"
  using assms by (auto simp: handleSend_def Let_def)

lemma describe_rejected_step:
  assumes "index (tasks s) i = Some (AwaitDescribe tts)"
  shows "step (DescribeSettled i (Inl e)) s =
     s\<lparr>messages := messages s @
          [\<lparr>role = Model, text = ''Sorry, I encountered an error processing your request.'',
            image = None, audio = None\<rparr>],
       status := idle, isLoading := False,
       tasks := take i (tasks s) @ drop (Suc i) (tasks s)\<rparr>"
  using assms by (simp add: resume_def describe_settled_def catch_finally_def)

text \<open>
  C3. When the text-generation call of a submitted turn throws, the conversation is the
  one before the submission, then the user message, then exactly one model message with
  the fixed error text; the status is idle, the loading flag is down, the handler has
  ended and no further request was issued. Whatever happened between the submission and
  the rejection, the rejection appends that one message to the conversation of the moment
  and sets the status to idle.
\<close>

theorem describe_rejected_appends_error:
  assumes "truthy (or_str textOverride (input s)) \<or> truthy_opt (image_st s)"
  shows "messages (step (DescribeSettled (length (tasks s)) (Inl e)) (handleSend textOverride s)) =
       messages s @
         [\<lparr>role = User, text = or_str (Some (or_str textOverride (input s))) ''Analyze this image'',
           image = or_undefined (image_st s), audio = None\<rparr>,
          \<lparr>role = Model, text = ''Sorry, I encountered an error processing your request.'',
           image = None, audio = None\<rparr>]
     \<and> status (step (DescribeSettled (length (tasks s)) (Inl e)) (handleSend textOverride s)) = idle
     \<and> isLoading (step (DescribeSettled (length (tasks s)) (Inl e)) (handleSend textOverride s)) = False
     \<and> tasks (step (DescribeSettled (length (tasks s)) (Inl e)) (handleSend textOverride s)) = tasks s
     \<and> calls (step (DescribeSettled (length (tasks s)) (Inl e)) (handleSend textOverride s)) =
         calls (handleSend textOverride s)
     \<and> (\<forall>s' i tts. index (tasks s') i = Some (AwaitDescribe tts) \<longrightarrow>
           messages (step (DescribeSettled i (Inl e)) s') =
             messages s' @
               [\<lparr>role = Model, text = ''Sorry, I encountered an error processing your request.'',
                 image = None, audio = None\<rparr>]
           \<and> status (step (DescribeSettled i (Inl e)) s') = idle)"
proof -
  let ?s1 = "handleSend textOverride s"
  have t: "index (tasks ?s1) (length (tasks s)) = Some (AwaitDescribe (isTtsEnabled s))"
    by (simp add: handleSend_accepted [OF assms] index_snoc)
  have first: "step (DescribeSettled (length (tasks s)) (Inl e)) ?s1 =
     ?s1\<lparr>messages := messages ?s1 @
          [\<lparr>role = Model, text = ''Sorry, I encountered an error processing your request.'',
            image = None, audio = None\<rparr>],
       status := idle, isLoading := False,
       tasks := take (length (tasks s)) (tasks ?s1) @ drop (Suc (length (tasks s))) (tasks ?s1)\<rparr>"
    by (rule describe_rejected_step [OF t])
  have general: "\<forall>s' i tts. index (tasks s') i = Some (AwaitDescribe tts) \<longrightarrow>
           messages (step (DescribeSettled i (Inl e)) s') =
             messages s' @
               [\<lparr>role = Model, text = ''Sorry, I encountered an error processing your request.'',
                 image = None, audio = None\<rparr>]
           \<and> status (step (DescribeSettled i (Inl e)) s') = idle"
    by (simp add: resume_def describe_settled_def catch_finally_def)
  show ?thesis
    unfolding first using general by (simp add: handleSend_accepted [OF assms])
qed

theorem describe_rejected_appends_error_witness:
  "messages (run [ChangeInput ''hi'', ClickSend, DescribeSettled 0 (Inl (RemoteError ''503''))] init) =
     [\<lparr>role = User, text = ''hi'', image = None, audio = None\<rparr>,
      \<lparr>role = Model, text = ''Sorry, I encountered an error processing your request.'',
       image = None, audio = None\<rparr>]
   \<and> status (run [ChangeInput ''hi'', ClickSend, DescribeSettled 0 (Inl (RemoteError ''503''))] init) = idle"
proof -
  let ?s = "step (ChangeInput ''hi'') init"
  have a: "truthy (or_str None (input ?s)) \<or> truthy_opt (image_st ?s)"
    by (simp add: init_def or_str_def truthy_def)
  have b: "step ClickSend ?s = handleSend None ?s"
    by (simp add: init_def truthy_def)
  have c: "length (tasks ?s) = 0" by (simp add: init_def)
  from describe_rejected_appends_error [OF a, of "RemoteError ''503''"] show ?thesis
    unfolding c by (simp add: b) (simp add: init_def or_str_def truthy_def or_undefined_def truthy_opt_def)
qed

lemma describe_resolved_step:
  assumes "index (tasks s) i = Some (AwaitDescribe tts)"
  shows "step (DescribeSettled i (Inr t)) s =
     (if tts
      then s\<lparr>messages := messages s @
                [\<lparr>role = Model, text = or_str t ''I couldn't analyze the image.'',
                  image = None, audio = None\<rparr>],
             status := speaking,
             calls := calls s @ [generateSpeech_request (or_str t ''I couldn't analyze the image.'')],
             tasks := (tasks s)[i := AwaitSpeech]\<rparr>
      else s\<lparr>messages := messages s @
                [\<lparr>role = Model, text = or_str t ''I couldn't analyze the image.'',
                  image = None, audio = None\<rparr>],
             status := idle, isLoading := False,
             tasks := take i (tasks s) @ drop (Suc i) (tasks s)\<rparr>)"
  using assms by (simp add: resume_def describe_settled_def Let_def)

lemma speech_resolved_messages:
  "messages (step (SpeechSettled i (Inr response)) s) = messages s"
  by (simp add: resume_def speech_settled_def Let_def split: option.splits task.splits)

lemma audio_ended_messages: "messages (step (AudioEnded i) s) = messages s"
  by (simp add: resume_def audio_ended_def split: option.splits task.splits)

lemma speech_rejected_step:
  assumes "index (tasks s) i = Some AwaitSpeech"
  shows "step (SpeechSettled i (Inl e)) s =
     s\<lparr>messages := messages s @
          [\<lparr>role = Model, text = ''Sorry, I encountered an error processing your request.'',
            image = None, audio = None\<rparr>],
       status := idle, isLoading := False,
       tasks := take i (tasks s) @ drop (Suc i) (tasks s)\<rparr>"
  using assms by (simp add: resume_def speech_settled_def catch_finally_def)

lemma settled_without_task:
  assumes "index (tasks s) i = None"
  shows "step (SpeechSettled i outcome) s = s" and "step (AudioEnded i) s = s"
    and "step (DescribeSettled i d) s = s"
  using assms by simp_all

text \<open>
  C4 (as amended). A submission with non-empty text appends exactly one user message;
  when the text-generation call succeeds the turn appends exactly one model message after
  it. Nothing else is appended by the turn as long as speech is disabled or the
  speech-synthesis call does not throw, whatever that call returns and when the playback
  ends. When speech is enabled and the speech-synthesis call throws, the fixed error
  message follows the model message.
\<close>

theorem turn_appends_user_then_model:
  assumes "truthy (or_str textOverride (input s))"
  shows "messages (handleSend textOverride s) =
       messages s @ [\<lparr>role = User, text = or_str textOverride (input s),
                       image = or_undefined (image_st s), audio = None\<rparr>]
     \<and> messages (run [DescribeSettled (length (tasks s)) (Inr t)] (handleSend textOverride s)) =
       messages s @ [\<lparr>role = User, text = or_str textOverride (input s),
                       image = or_undefined (image_st s), audio = None\<rparr>,
                     \<lparr>role = Model, text = or_str t ''I couldn't analyze the image.'',
                       image = None, audio = None\<rparr>]
     \<and> ((isTtsEnabled s \<longrightarrow> \<not> isl outcome) \<longrightarrow>
          messages (run [DescribeSettled (length (tasks s)) (Inr t),
                         SpeechSettled (length (tasks s)) outcome] (handleSend textOverride s)) =
            messages s @ [\<lparr>role = User, text = or_str textOverride (input s),
                            image = or_undefined (image_st s), audio = None\<rparr>,
                          \<lparr>role = Model, text = or_str t ''I couldn't analyze the image.'',
                            image = None, audio = None\<rparr>]
        \<and> messages (run [DescribeSettled (length (tasks s)) (Inr t),
                         SpeechSettled (length (tasks s)) outcome,
                         AudioEnded (length (tasks s))] (handleSend textOverride s)) =
            messages s @ [\<lparr>role = User, text = or_str textOverride (input s),
                            image = or_undefined (image_st s), audio = None\<rparr>,
                          \<lparr>role = Model, text = or_str t ''I couldn't analyze the image.'',
                            image = None, audio = None\<rparr>])
     \<and> (isTtsEnabled s \<longrightarrow>
          messages (run [DescribeSettled (length (tasks s)) (Inr t),
                         SpeechSettled (length (tasks s)) (Inl e)] (handleSend textOverride s)) =
            messages s @ [\<lparr>role = User, text = or_str textOverride (input s),
                            image = or_undefined (image_st s), audio = None\<rparr>,
                          \<lparr>role = Model, text = or_str t ''I couldn't analyze the image.'',
                            image = None, audio = None\<rparr>,
                          \<lparr>role = Model,
                            text = ''Sorry, I encountered an error processing your request.'',
                            image = None, audio = None\<rparr>])"
proof -
  let ?n = "length (tasks s)"
  let ?U = "\<lparr>role = User, text = or_str textOverride (input s),
             image = or_undefined (image_st s), audio = None\<rparr>"
  let ?M = "\<lparr>role = Model, text = or_str t ''I couldn't analyze the image.'',
             image = None, audio = None\<rparr>"
  let ?s1 = "handleSend textOverride s"
  let ?s2 = "step (DescribeSettled ?n (Inr t)) ?s1"
  from assms have acc: "truthy (or_str textOverride (input s)) \<or> truthy_opt (image_st s)" ..
  from assms have same_text: "or_str (Some (or_str textOverride (input s))) ''Analyze this image'' =
      or_str textOverride (input s)"
    by (simp add: or_str_def)
  have m1: "messages ?s1 = messages s @ [?U]"
    by (simp add: handleSend_accepted [OF acc] same_text)
  have t1: "index (tasks ?s1) ?n = Some (AwaitDescribe (isTtsEnabled s))"
    by (simp add: handleSend_accepted [OF acc] index_snoc)
  note s2 = describe_resolved_step [OF t1, of t]
  have m2: "messages ?s2 = messages s @ [?U, ?M]"
    unfolding s2 using m1 by simp
  have tk: "tasks ?s2 = (if isTtsEnabled s then tasks s @ [AwaitSpeech] else tasks s)"
    unfolding s2 by (simp add: handleSend_accepted [OF acc])
  have ok: "messages (step (SpeechSettled ?n outcome) ?s2) = messages s @ [?U, ?M]"
    if "isTtsEnabled s \<longrightarrow> \<not> isl outcome"
  proof (cases "isTtsEnabled s")
    case True
    with that obtain response where "outcome = Inr response" by (cases outcome) auto
    then show ?thesis by (simp only: speech_resolved_messages m2)
  next
    case False
    with tk have "index (tasks ?s2) ?n = None" by (simp add: index_length)
    then show ?thesis by (simp only: settled_without_task m2)
  qed
  have bad: "messages (step (SpeechSettled ?n (Inl e)) ?s2) =
      messages s @ [?U, ?M, \<lparr>role = Model,
        text = ''Sorry, I encountered an error processing your request.'',
        image = None, audio = None\<rparr>]" if "isTtsEnabled s"
  proof -
    from that tk have "index (tasks ?s2) ?n = Some AwaitSpeech" by (simp add: index_snoc)
    from speech_rejected_step [OF this] m2 show ?thesis by simp
  qed
  from m1 m2 ok bad show ?thesis
    by (simp del: step.simps add: audio_ended_messages)
qed

theorem turn_appends_user_then_model_witness:
  "messages (run [ChangeInput ''hi'', ClickSend, DescribeSettled 0 (Inr (Some ''hello'')),
       SpeechSettled 0 (Inr \<lparr>candidates = None\<rparr>), AudioEnded 0] init) =
     [\<lparr>role = User, text = ''hi'', image = None, audio = None\<rparr>,
      \<lparr>role = Model, text = ''hello'', image = None, audio = None\<rparr>]"
proof -
  let ?s = "step (ChangeInput ''hi'') init"
  let ?o = "Inr \<lparr>candidates = None\<rparr> :: error + Response"
  have a: "truthy (or_str None (input ?s))"
    by (simp add: init_def or_str_def truthy_def)
  have b: "step ClickSend ?s = handleSend None ?s"
    by (simp add: init_def truthy_def)
  have c: "length (tasks ?s) = 0" by (simp add: init_def)
  have d: "isTtsEnabled ?s \<longrightarrow> \<not> isl ?o" by simp
  from turn_appends_user_then_model [OF a, where outcome = ?o and t = "Some ''hello''"] d
  have "messages (run [DescribeSettled 0 (Inr (Some ''hello'')), SpeechSettled 0 ?o, AudioEnded 0]
          (handleSend None ?s)) =
        messages ?s @ [\<lparr>role = User, text = or_str None (input ?s),
                        image = or_undefined (image_st ?s), audio = None\<rparr>,
                      \<lparr>role = Model, text = or_str (Some ''hello'') ''I couldn't analyze the image.'',
                        image = None, audio = None\<rparr>]"
    unfolding c by blast
  then show ?thesis
    by (simp add: b) (simp add: init_def or_str_def truthy_def or_undefined_def truthy_opt_def)
qed

text \<open>
  C4 as stated fails: with speech enabled (the initial setting), a successful text
  response followed by a failing speech request leaves two model messages.
\<close>

theorem speech_failure_second_model_message_counterexample:
  "messages (run [ChangeInput ''hi'', ClickSend, DescribeSettled 0 (Inr (Some ''hello'')),
       SpeechSettled 0 (Inl (RemoteError ''503''))] init) =
     [\<lparr>role = User, text = ''hi'', image = None, audio = None\<rparr>,
      \<lparr>role = Model, text = ''hello'', image = None, audio = None\<rparr>,
      \<lparr>role = Model, text = ''Sorry, I encountered an error processing your request.'',
       image = None, audio = None\<rparr>]"
  by (simp add: init_def handleSend_def Let_def or_str_def truthy_def truthy_opt_def
      or_undefined_def index_def resume_def describe_settled_def speech_settled_def
      catch_finally_def)

subsection \<open>Turns submitted while speech is disabled\<close>

lemma set_resume_tasks:
  "set (tasks (resume i (s, r))) \<subseteq> set (tasks s) \<union> set_option r"
proof (cases r)
  case None
  have "set (take i (tasks s)) \<subseteq> set (tasks s)" "set (drop (Suc i) (tasks s)) \<subseteq> set (tasks s)"
    by (rule set_take_subset, rule set_drop_subset)
  with None show ?thesis by (auto simp: resume_def)
next
  case (Some t)
  then show ?thesis
    using set_update_subset_insert [of "tasks s" i t] by (auto simp: resume_def)
qed

lemma index_in_set: "index xs i = Some x \<Longrightarrow> x \<in> set xs"
  by (auto simp: index_def split: if_splits)

lemma vision_not_tts: "model (describeImage_request b p h l) \<noteq> TTS_MODEL"
  by (simp add: describeImage_request_def Let_def VISION_MODEL_def TTS_MODEL_def)

lemma step_quiet:
  assumes "\<not> is_submit e" and "status s \<noteq> speaking" and "AwaitDescribe True \<notin> set (tasks s)"
  shows "status (step e s) \<noteq> speaking \<and> AwaitDescribe True \<notin> set (tasks (step e s))
     \<and> speech_calls (step e s) = speech_calls s"
proof (cases e)
  case (DescribeSettled i outcome)
  show ?thesis
  proof (cases "index (tasks s) i")
    case None
    with DescribeSettled assms show ?thesis by simp
  next
    case (Some t)
    show ?thesis
    proof (cases t)
      case (AwaitDescribe tts)
      with Some assms(3) have "\<not> tts" using index_in_set [of "tasks s" i t] by auto
      with AwaitDescribe Some DescribeSettled assms show ?thesis
        using set_take_subset [of i "tasks s"] set_drop_subset [of "Suc i" "tasks s"]
        by (auto simp: resume_def describe_settled_def catch_finally_def Let_def speech_calls_def
            split: sum.splits)
    qed (use Some DescribeSettled assms in simp_all)
  qed
next
  case (SpeechSettled i outcome)
  show ?thesis
  proof (cases "index (tasks s) i")
    case None
    with SpeechSettled assms show ?thesis by simp
  next
    case (Some t)
    show ?thesis
    proof (cases t)
      case AwaitSpeech
      obtain s' r where sr: "speech_settled outcome s = (s', r)" by (cases "speech_settled outcome s")
      then have props: "status s' \<noteq> speaking" "tasks s' = tasks s" "calls s' = calls s"
        "AwaitDescribe True \<notin> set_option r"
        using assms(2)
        by (auto simp: speech_settled_def catch_finally_def Let_def split: sum.splits if_splits)
      have st: "step e s = resume i (s', r)"
        using SpeechSettled Some AwaitSpeech sr by simp
      have "status (resume i (s', r)) = status s'" "calls (resume i (s', r)) = calls s'"
        by (cases r; simp add: resume_def)+
      moreover have "AwaitDescribe True \<notin> set (tasks (resume i (s', r)))"
        using set_resume_tasks [of i s' r] props assms(3) by auto
      ultimately show ?thesis
        unfolding st using props by (simp add: speech_calls_def)
    qed (use Some SpeechSettled assms in simp_all)
  qed
next
  case (AudioEnded i)
  show ?thesis
  proof (cases "index (tasks s) i")
    case None
    with AudioEnded assms show ?thesis by simp
  next
    case (Some t)
    show ?thesis
    proof (cases t)
      case (Playing src)
      have st: "step e s = resume i (audio_ended s, None)"
        using AudioEnded Some Playing by simp
      have "AwaitDescribe True \<notin> set (tasks (resume i (audio_ended s, None)))"
        using set_resume_tasks [of i "audio_ended s" None] assms(3)
        by (auto simp: audio_ended_def)
      then show ?thesis
        unfolding st by (simp add: resume_def audio_ended_def speech_calls_def)
    qed (use Some AudioEnded assms in simp_all)
  qed
qed (use assms in \<open>simp_all add: is_submit_def clearChat_def speech_calls_def\<close>)

lemma run_quiet:
  assumes "\<forall>e\<in>set evs. \<not> is_submit e" and "status s \<noteq> speaking"
    and "AwaitDescribe True \<notin> set (tasks s)"
  shows "status (run evs s) \<noteq> speaking \<and> speech_calls (run evs s) = speech_calls s"
  using assms
proof (induction evs arbitrary: s)
  case Nil
  then show ?case by simp
next
  case (Cons e evs)
  from Cons.prems have e: "\<not> is_submit e" and rest: "\<forall>e\<in>set evs. \<not> is_submit e" by simp_all
  note q = step_quiet [OF e Cons.prems(2,3)]
  from Cons.IH [OF rest, of "step e s"] q show ?case
    by (simp del: step.simps)
qed

text \<open>
  C8 (as amended). The setting that counts for a turn is the one at its submission. A
  turn submitted while speech output is disabled sets the status to analyzing, issues no
  request to the speech model, and captures the disabled setting. When its text response
  settles, in whatever state the session then is (the setting may have been toggled
  meanwhile), its handler issues no request, sets the status to idle and ends: it never
  invokes \<^verbatim>\<open>generateSpeech\<close> and never sets the status to speaking. Moreover, when no
  earlier turn that captured the enabled setting still waits for its text, then through
  every sequence of events that submits nothing further the status is never speaking and
  no speech request is issued.
\<close>

theorem speech_disabled_turn:
  assumes "\<not> isTtsEnabled s"
    and "truthy (or_str textOverride (input s)) \<or> truthy_opt (image_st s)"
  shows "status (handleSend textOverride s) = analyzing
     \<and> speech_calls (handleSend textOverride s) = speech_calls s
     \<and> tasks (handleSend textOverride s) = tasks s @ [AwaitDescribe False]
     \<and> (\<forall>s' i outcome. index (tasks s') i = Some (AwaitDescribe False) \<longrightarrow>
           calls (step (DescribeSettled i outcome) s') = calls s'
         \<and> status (step (DescribeSettled i outcome) s') = idle
         \<and> tasks (step (DescribeSettled i outcome) s') = take i (tasks s') @ drop (Suc i) (tasks s'))
     \<and> (AwaitDescribe True \<notin> set (tasks s) \<and> (\<forall>e\<in>set evs. \<not> is_submit e) \<longrightarrow>
           status (run evs (handleSend textOverride s)) \<noteq> speaking
         \<and> speech_calls (run evs (handleSend textOverride s)) = speech_calls s)"
proof -
  let ?s1 = "handleSend textOverride s"
  note s1 = handleSend_accepted [OF assms(2)]
  have a: "status ?s1 = analyzing" by (simp add: s1)
  have b: "speech_calls ?s1 = speech_calls s"
    by (simp add: s1 speech_calls_def vision_not_tts)
  have c: "tasks ?s1 = tasks s @ [AwaitDescribe False]"
    using assms(1) by (simp add: s1)
  have d: "\<forall>s' i outcome. index (tasks s') i = Some (AwaitDescribe False) \<longrightarrow>
           calls (step (DescribeSettled i outcome) s') = calls s'
         \<and> status (step (DescribeSettled i outcome) s') = idle
         \<and> tasks (step (DescribeSettled i outcome) s') = take i (tasks s') @ drop (Suc i) (tasks s')"
    by (simp add: resume_def describe_settled_def catch_finally_def Let_def split: sum.splits)
  have e: "status (run evs ?s1) \<noteq> speaking \<and> speech_calls (run evs ?s1) = speech_calls s"
    if "AwaitDescribe True \<notin> set (tasks s)" "\<forall>e\<in>set evs. \<not> is_submit e"
  proof -
    from that(1) c have "AwaitDescribe True \<notin> set (tasks ?s1)" by simp
    moreover from a have "status ?s1 \<noteq> speaking" by simp
    ultimately show ?thesis using run_quiet [OF that(2)] b by simp
  qed
  from a b c d e show ?thesis by blast
qed

theorem speech_disabled_turn_witness:
  "status (run [ClickTts, ChangeInput ''hi'', ClickSend] init) = analyzing
   \<and> status (run [ClickTts, ChangeInput ''hi'', ClickSend, ClickTts,
                   DescribeSettled 0 (Inr (Some ''hello''))] init) = idle
   \<and> speech_calls (run [ClickTts, ChangeInput ''hi'', ClickSend, ClickTts,
                   DescribeSettled 0 (Inr (Some ''hello''))] init) = []"
proof -
  let ?s = "run [ClickTts, ChangeInput ''hi''] init"
  let ?evs = "[ClickTts, DescribeSettled 0 (Inr (Some ''hello''))]"
  have h1: "\<not> isTtsEnabled ?s" by (simp add: init_def)
  have h2: "truthy (or_str None (input ?s)) \<or> truthy_opt (image_st ?s)"
    by (simp add: init_def or_str_def truthy_def)
  have h3: "AwaitDescribe True \<notin> set (tasks ?s) \<and> (\<forall>e\<in>set ?evs. \<not> is_submit e)"
    by (simp add: init_def is_submit_def)
  have click: "step ClickSend ?s = handleSend None ?s"
    by (simp add: init_def truthy_def)
  have sc: "speech_calls ?s = []" by (simp add: init_def speech_calls_def)
  note t = speech_disabled_turn [OF h1 h2, where evs = ?evs]
  from t have a: "status (handleSend None ?s) = analyzing" by blast
  from t h3 have b: "speech_calls (run ?evs (handleSend None ?s)) = speech_calls ?s" by blast
  from t have ts: "tasks (handleSend None ?s) = tasks ?s @ [AwaitDescribe False]" by blast
  then have ix: "index (tasks (step ClickTts (handleSend None ?s))) 0 = Some (AwaitDescribe False)"
    by (simp add: init_def index_def)
  from t have "\<forall>s' i outcome. index (tasks s') i = Some (AwaitDescribe False) \<longrightarrow>
      status (step (DescribeSettled i outcome) s') = idle" by blast
  with ix have c: "status (step (DescribeSettled 0 (Inr (Some ''hello'')))
      (step ClickTts (handleSend None ?s))) = idle" by blast
  have r1: "run [ClickTts, ChangeInput ''hi'', ClickSend] init = handleSend None ?s"
    using click by (simp del: step.simps)
  have r2: "run [ClickTts, ChangeInput ''hi'', ClickSend, ClickTts,
        DescribeSettled 0 (Inr (Some ''hello''))] init = run ?evs (handleSend None ?s)"
    using click by (simp del: step.simps)
  have r3: "run ?evs (handleSend None ?s) =
      step (DescribeSettled 0 (Inr (Some ''hello''))) (step ClickTts (handleSend None ?s))"
    by (simp del: step.simps)
  from a b c sc show ?thesis
    unfolding r1 r2 by (simp only: r3)
qed

text \<open>
  C8 as stated fails. With the send button alone: a turn is submitted with speech enabled
  and speech is disabled while the text is awaited; when the text arrives the setting is
  disabled, and the handler, which reads the setting it captured at submission, issues
  the speech request and sets the status to speaking. And through the Enter key, which
  admits a second turn while the first is pending: the second turn is submitted with
  speech disabled, and while it waits the first turn issues its speech request and sets
  the status to speaking.
\<close>

theorem muted_turn_still_speaks_counterexample:
  "isTtsEnabled (run [ChangeInput ''a'', ClickSend, ClickTts] init) = False
   \<and> speech_calls (run [ChangeInput ''a'', ClickSend, ClickTts] init) = []
   \<and> isTtsEnabled (run [ChangeInput ''a'', ClickSend, ClickTts,
         DescribeSettled 0 (Inr (Some ''x''))] init) = False
   \<and> status (run [ChangeInput ''a'', ClickSend, ClickTts,
         DescribeSettled 0 (Inr (Some ''x''))] init) = speaking
   \<and> speech_calls (run [ChangeInput ''a'', ClickSend, ClickTts,
         DescribeSettled 0 (Inr (Some ''x''))] init) = [generateSpeech_request ''x'']
   \<and> isTtsEnabled (run [ChangeInput ''a'', KeyDown ''Enter'', ClickTts, ChangeInput ''b''] init) = False
   \<and> tasks (run [ChangeInput ''a'', KeyDown ''Enter'', ClickTts, ChangeInput ''b'',
         KeyDown ''Enter''] init) = [AwaitDescribe True, AwaitDescribe False]
   \<and> tasks (run [ChangeInput ''a'', KeyDown ''Enter'', ClickTts, ChangeInput ''b'',
         KeyDown ''Enter'', DescribeSettled 0 (Inr (Some ''x''))] init) =
       [AwaitSpeech, AwaitDescribe False]
   \<and> status (run [ChangeInput ''a'', KeyDown ''Enter'', ClickTts, ChangeInput ''b'',
         KeyDown ''Enter'', DescribeSettled 0 (Inr (Some ''x''))] init) = speaking
   \<and> speech_calls (run [ChangeInput ''a'', KeyDown ''Enter'', ClickTts, ChangeInput ''b'',
         KeyDown ''Enter'', DescribeSettled 0 (Inr (Some ''x''))] init) = [generateSpeech_request ''x'']"
  by (simp add: init_def handleSend_def Let_def or_str_def truthy_def truthy_opt_def index_def
      resume_def describe_settled_def speech_calls_def vision_not_tts)
     (simp add: generateSpeech_request_def)

subsection \<open>Admission of submissions\<close>

lemma filter_remove_nth:
  assumes "i < length xs"
  shows "length (filter P (take i xs @ drop (Suc i) xs)) + (if P (xs ! i) then 1 else 0) =
     length (filter P xs)"
proof -
  from assms have "xs = take i xs @ xs ! i # drop (Suc i) xs" by (rule id_take_nth_drop)
  then have "length (filter P xs) = length (filter P (take i xs @ xs ! i # drop (Suc i) xs))"
    by simp
  then show ?thesis by simp
qed

lemma filter_update_nth:
  assumes "i < length xs"
  shows "length (filter P (xs[i := t])) + (if P (xs ! i) then 1 else 0) =
     length (filter P xs) + (if P t then 1 else 0)"
proof -
  from assms have "xs[i := t] = take i xs @ t # drop (Suc i) xs" by (rule upd_conv_take_nth_drop)
  then have "length (filter P (xs[i := t])) + (if P (xs ! i) then 1 else 0) =
      length (filter P (take i xs @ drop (Suc i) xs)) + (if P (xs ! i) then 1 else 0)
        + (if P t then 1 else 0)" by simp
  with filter_remove_nth [OF assms, of P] show ?thesis by simp
qed

lemma index_SomeD: "index xs i = Some x \<Longrightarrow> i < length xs \<and> xs ! i = x"
  by (auto simp: index_def split: if_splits)

lemma step_single_flight:
  assumes "e \<noteq> KeyDown ''Enter''" and "in_flight s \<le> 1" and "0 < in_flight s \<longrightarrow> isLoading s"
  shows "in_flight (step e s) \<le> 1 \<and> (0 < in_flight (step e s) \<longrightarrow> isLoading (step e s))"
proof (cases e)
  case ClickSend
  show ?thesis
  proof (cases "isLoading s \<or> (\<not> truthy (input s) \<and> \<not> truthy_opt (image_st s))")
    case True
    with ClickSend assms show ?thesis by simp
  next
    case False
    with assms(3) have "in_flight s = 0" by auto
    with False ClickSend show ?thesis
      by (auto simp: handleSend_def Let_def in_flight_def)
  qed
next
  case (DescribeSettled i outcome)
  show ?thesis
  proof (cases "index (tasks s) i")
    case None
    with DescribeSettled assms show ?thesis by simp
  next
    case (Some t)
    show ?thesis
    proof (cases t)
      case (AwaitDescribe tts)
      from Some AwaitDescribe have i: "i < length (tasks s)" "tasks s ! i = AwaitDescribe tts"
        using index_SomeD [of "tasks s" i t] by simp_all
      from filter_remove_nth [OF i(1), of is_request] i(2)
      have rem: "length (filter is_request (take i (tasks s) @ drop (Suc i) (tasks s))) + 1 =
          in_flight s" by (simp add: in_flight_def)
      from filter_update_nth [OF i(1), of is_request AwaitSpeech] i(2)
      have upd: "length (filter is_request ((tasks s)[i := AwaitSpeech])) = in_flight s"
        by (simp add: in_flight_def)
      from rem have pos: "0 < in_flight s" by simp
      with assms have load: "isLoading s" and one: "in_flight s = 1" by auto
      from rem one have rem0: "length (filter is_request (take i (tasks s) @ drop (Suc i) (tasks s))) = 0"
        by simp
      have st: "step e s = resume i (describe_settled tts outcome s)"
        using DescribeSettled Some AwaitDescribe by simp
      show ?thesis
        unfolding st using rem0 upd one load
        by (auto simp: resume_def describe_settled_def catch_finally_def Let_def in_flight_def
            split: sum.splits simp del: filter_append)
    qed (use Some DescribeSettled assms in simp_all)
  qed
next
  case (SpeechSettled i outcome)
  show ?thesis
  proof (cases "index (tasks s) i")
    case None
    with SpeechSettled assms show ?thesis by simp
  next
    case (Some t)
    show ?thesis
    proof (cases t)
      case AwaitSpeech
      from Some AwaitSpeech have i: "i < length (tasks s)" "tasks s ! i = AwaitSpeech"
        using index_SomeD [of "tasks s" i t] by simp_all
      from filter_remove_nth [OF i(1), of is_request] i(2)
      have rem: "length (filter is_request (take i (tasks s) @ drop (Suc i) (tasks s))) + 1 =
          in_flight s" by (simp add: in_flight_def)
      have upd: "length (filter is_request ((tasks s)[i := Playing src])) + 1 = in_flight s" for src
        using filter_update_nth [OF i(1), of is_request "Playing src"] i(2)
        by (simp add: in_flight_def)
      from rem assms have one: "in_flight s = 1" by auto
      from rem one have rem0: "length (filter is_request (take i (tasks s) @ drop (Suc i) (tasks s))) = 0"
        by simp
      from upd one have upd0: "length (filter is_request ((tasks s)[i := Playing src])) = 0" for src
        by (metis add_right_cancel plus_nat.add_0)
      have st: "step e s = resume i (speech_settled outcome s)"
        using SpeechSettled Some AwaitSpeech by simp
      show ?thesis
        unfolding st using rem0 upd0
        by (auto simp: resume_def speech_settled_def catch_finally_def Let_def in_flight_def
            split: sum.splits simp del: filter_append)
    qed (use Some SpeechSettled assms in simp_all)
  qed
next
  case (AudioEnded i)
  show ?thesis
  proof (cases "index (tasks s) i")
    case None
    with AudioEnded assms show ?thesis by simp
  next
    case (Some t)
    show ?thesis
    proof (cases t)
      case (Playing src)
      from Some Playing have i: "i < length (tasks s)" "tasks s ! i = Playing src"
        using index_SomeD [of "tasks s" i t] by simp_all
      from filter_remove_nth [OF i(1), of is_request] i(2)
      have rem: "length (filter is_request (take i (tasks s) @ drop (Suc i) (tasks s))) =
          in_flight s" by (simp add: in_flight_def)
      have st: "step e s = resume i (audio_ended s, None)"
        using AudioEnded Some Playing by simp
      show ?thesis
        unfolding st using rem assms(2,3)
        by (simp add: resume_def audio_ended_def in_flight_def del: filter_append)
    qed (use Some AudioEnded assms in simp_all)
  qed
qed (use assms in \<open>simp_all add: clearChat_def in_flight_def\<close>)

lemma send_button_single_flight:
  assumes "\<forall>e\<in>set evs. e \<noteq> KeyDown ''Enter''"
    and "in_flight s \<le> 1" and "0 < in_flight s \<longrightarrow> isLoading s"
  shows "in_flight (run evs s) \<le> 1 \<and> (0 < in_flight (run evs s) \<longrightarrow> isLoading (run evs s))"
  using assms
proof (induction evs arbitrary: s)
  case Nil
  then show ?case by simp
next
  case (Cons e evs)
  from Cons.prems have e: "e \<noteq> KeyDown ''Enter''" and rest: "\<forall>e\<in>set evs. e \<noteq> KeyDown ''Enter''"
    by simp_all
  from step_single_flight [OF e Cons.prems(2,3)]
  have "in_flight (step e s) \<le> 1" "0 < in_flight (step e s) \<longrightarrow> isLoading (step e s)"
    by blast+
  from Cons.IH [OF rest this] show ?case by (simp del: step.simps)
qed

text \<open>
  In a session where the Enter key is never pressed, at most one request is in flight, and
  the loading flag is up while one is.
\<close>

lemma send_button_only_init:
  assumes "\<forall>e\<in>set evs. e \<noteq> KeyDown ''Enter''"
  shows "in_flight (run evs init) \<le> 1"
  using send_button_single_flight [OF assms, of init] by (simp add: init_def in_flight_def)

text \<open>
  C1 fails on the code. The send button is disabled while \<^verbatim>\<open>isLoading\<close> is true, but the
  Enter key of the text input calls \<^verbatim>\<open>handleSend\<close> unconditionally, and \<^verbatim>\<open>handleSend\<close>
  does not read \<^verbatim>\<open>isLoading\<close>: typing and pressing Enter twice starts a second turn
  while the first request is pending, so that two requests are in flight. The same events
  through the send button leave the second click without effect.
\<close>

theorem enter_key_second_request:
  "isLoading (run [ChangeInput ''a'', KeyDown ''Enter''] init)
   \<and> in_flight (run [ChangeInput ''a'', KeyDown ''Enter''] init) = 1
   \<and> tasks (run [ChangeInput ''a'', KeyDown ''Enter'', ChangeInput ''b'', KeyDown ''Enter''] init) =
       [AwaitDescribe True, AwaitDescribe True]
   \<and> in_flight (run [ChangeInput ''a'', KeyDown ''Enter'', ChangeInput ''b'', KeyDown ''Enter''] init) = 2
   \<and> length (calls (run [ChangeInput ''a'', KeyDown ''Enter'', ChangeInput ''b'', KeyDown ''Enter''] init)) = 2
   \<and> run [ChangeInput ''a'', ClickSend, ChangeInput ''b'', ClickSend] init =
       run [ChangeInput ''a'', ClickSend, ChangeInput ''b''] init"
  by (simp add: init_def handleSend_def Let_def or_str_def truthy_def truthy_opt_def in_flight_def)

text \<open>
  A consequence for the status: through the Enter key, a turn submitted with speech
  enabled can start speaking while a later turn, submitted with speech disabled, waits.
\<close>

lemma enter_key_overlap_speaks:
  "status (run [ChangeInput ''a'', KeyDown ''Enter'', ClickTts, ChangeInput ''b'', KeyDown ''Enter'',
       DescribeSettled 0 (Inr (Some ''x''))] init) = speaking
   \<and> tasks (run [ChangeInput ''a'', KeyDown ''Enter'', ClickTts, ChangeInput ''b'', KeyDown ''Enter'',
       DescribeSettled 0 (Inr (Some ''x''))] init) = [AwaitSpeech, AwaitDescribe False]"
  by (simp add: init_def handleSend_def Let_def or_str_def truthy_def truthy_opt_def index_def
      resume_def describe_settled_def)

end
